theory Spec2Isabelle
  imports Main "HOL-Library.Word"
begin

section \<open>Platform vocabulary used by the firmware\<close>

text \<open>
  The firmware (main.c, wifi.c, audio_stream.c) is a client of the ESP-IDF and FreeRTOS
  programming interfaces. Status codes, event identifiers and field sizes come from the
  platform headers; they are written out here with the values of those headers. The
  firmware only ever compares them for equality.
\<close>

type_synonym esp_err_t = "32 word"
type_synonym int32_t = "32 word"

definition ESP_OK :: esp_err_t where
  "ESP_OK = 0"

definition ESP_FAIL :: esp_err_t where
  "ESP_FAIL = - 1"

definition ESP_ERR_INVALID_STATE :: esp_err_t where
  "ESP_ERR_INVALID_STATE = 0x103"

definition ESP_ERR_NVS_NO_FREE_PAGES :: esp_err_t where
  "ESP_ERR_NVS_NO_FREE_PAGES = 0x110d"

definition ESP_ERR_NVS_NEW_VERSION_FOUND :: esp_err_t where
  "ESP_ERR_NVS_NEW_VERSION_FOUND = 0x1110"

definition pdPASS :: "32 word" where
  "pdPASS = 1"

datatype esp_event_base_t = WIFI_EVENT | IP_EVENT | OTHER_EVENT_BASE string

definition WIFI_EVENT_STA_START :: int32_t where
  "WIFI_EVENT_STA_START = 2"

definition WIFI_EVENT_STA_DISCONNECTED :: int32_t where
  "WIFI_EVENT_STA_DISCONNECTED = 5"

definition IP_EVENT_STA_GOT_IP :: int32_t where
  "IP_EVENT_STA_GOT_IP = 0"

definition ESP_EVENT_ANY_ID :: int32_t where
  "ESP_EVENT_ANY_ID = - 1"

datatype esp_log_level_t = ESP_LOG_ERROR | ESP_LOG_WARN | ESP_LOG_INFO

datatype wifi_mode_t = WIFI_MODE_NULL | WIFI_MODE_STA | WIFI_MODE_AP | WIFI_MODE_APSTA

datatype wifi_interface_t = WIFI_IF_STA | WIFI_IF_AP

datatype wifi_auth_mode_t =
  WIFI_AUTH_OPEN | WIFI_AUTH_WEP | WIFI_AUTH_WPA_PSK | WIFI_AUTH_WPA2_PSK

datatype wifi_init_config_t = WIFI_INIT_CONFIG_DEFAULT

datatype event_handler_t = Wifi_event_handler

datatype task_function_t = Audio_stream_task

text \<open>The tick-conversion macro belongs to the platform; its application stays symbolic.\<close>

datatype tick_type_t = PdMS_TO_TICKS nat

subsection \<open>C strings and strlcpy\<close>

definition NUL :: char where
  "NUL = CHR 0x00"

text \<open>The string a C character array denotes: the characters before the first NUL.\<close>

definition c_str :: "string \<Rightarrow> string" where
  "c_str buf = takeWhile (\<lambda>c. c \<noteq> NUL) buf"

text \<open>
  \<open>strlcpy dst src dsize\<close>: at most \<open>dsize - 1\<close> characters of the source string are
  copied to the front of \<open>dst\<close> and a NUL is stored after them; the rest of \<open>dst\<close> is
  left as it was. With \<open>dsize = 0\<close> nothing is written. The destination arrays of the
  firmware are at least \<open>dsize\<close> long (the size passed is \<open>sizeof\<close> of the array).
\<close>

definition strlcpy :: "string \<Rightarrow> string \<Rightarrow> nat \<Rightarrow> string" where
  "strlcpy dst src dsize =
     (if dsize = 0 then dst
      else (let s = take (dsize - 1) (c_str src)
            in s @ [NUL] @ drop (length s + 1) dst))"

text \<open>Sizes of the \<open>ssid\<close> and \<open>password\<close> arrays of the platform's station configuration.\<close>

definition SSID_SIZE :: nat where
  "SSID_SIZE = 32"

definition PASSWORD_SIZE :: nat where
  "PASSWORD_SIZE = 64"

text \<open>
  The fields of the station configuration that wifi.c sets. Every other field of the
  platform structure is zero-initialised by the designated initialiser and is not
  modelled.
\<close>

record wifi_sta_config_t =
  ssid :: string
  password :: string
  threshold_authmode :: wifi_auth_mode_t
  pmf_capable :: bool
  pmf_required :: bool

subsection \<open>Platform calls and their results\<close>

text \<open>
  One constructor for each platform routine or macro the firmware calls, with the
  arguments the firmware chooses; arguments that are null throughout are left out.
  \<open>Esp_log\<close> stands for the logging macros, with level, tag and the formatted message;
  \<open>Abort\<close> for the abort in which a failed error check ends.
\<close>

datatype call =
    Esp_netif_init
  | Esp_event_loop_create_default
  | Esp_netif_create_default_wifi_sta
  | Esp_wifi_init wifi_init_config_t
  | Esp_event_handler_instance_register esp_event_base_t int32_t event_handler_t
  | Esp_wifi_set_mode wifi_mode_t
  | Esp_wifi_set_config wifi_interface_t wifi_sta_config_t
  | Esp_wifi_start
  | Esp_wifi_connect
  | Esp_log esp_log_level_t string string
  | Nvs_flash_init
  | Nvs_flash_erase
  | XTaskCreate task_function_t string nat nat
  | VTaskDelay tick_type_t
  | Abort

text \<open>
  The platform is an arbitrary deterministic oracle: given the calls made so far and the
  call being made, it yields the 32-bit value the call returns (a status code, a pointer
  or a FreeRTOS base type). The trace of calls is the only state the firmware threads.
\<close>

type_synonym platform = "call list \<Rightarrow> call \<Rightarrow> 32 word"

definition invoke :: "platform \<Rightarrow> call \<Rightarrow> call list \<Rightarrow> 32 word \<times> call list" where
  "invoke p c t = (p t c, t @ [c])"

section \<open>wifi.c\<close>

definition WIFI_TAG :: string where
  "WIFI_TAG = ''wifi''"

text \<open>The configuration built at lines 62 to 74 of wifi.c from the two build-time strings.\<close>

definition station_config :: "string \<Rightarrow> string \<Rightarrow> wifi_sta_config_t" where
  "station_config cfg_ssid cfg_password =
     \<lparr> ssid = strlcpy (replicate SSID_SIZE NUL) cfg_ssid SSID_SIZE,
       password = strlcpy (replicate PASSWORD_SIZE NUL) cfg_password PASSWORD_SIZE,
       threshold_authmode = WIFI_AUTH_WPA2_PSK,
       pmf_capable = True,
       pmf_required = False \<rparr>"

definition wifi_init_sta ::
  "platform \<Rightarrow> string \<Rightarrow> string \<Rightarrow> call list \<Rightarrow> esp_err_t \<times> call list" where
  "wifi_init_sta p cfg_ssid cfg_password t0 =
     (let (err, t1) = invoke p Esp_netif_init t0 in
      if err \<noteq> ESP_OK then (err, t1) else
      let (err, t2) = invoke p Esp_event_loop_create_default t1 in
      if err \<noteq> ESP_OK \<and> err \<noteq> ESP_ERR_INVALID_STATE then (err, t2) else
      let (netif, t3) = invoke p Esp_netif_create_default_wifi_sta t2 in
      if netif = 0 then (ESP_FAIL, t3) else
      let (err, t4) = invoke p (Esp_wifi_init WIFI_INIT_CONFIG_DEFAULT) t3 in
      if err \<noteq> ESP_OK then (err, t4) else
      let (err, t5) = invoke p
            (Esp_event_handler_instance_register WIFI_EVENT ESP_EVENT_ANY_ID
               Wifi_event_handler) t4 in
      if err \<noteq> ESP_OK then (err, t5) else
      let (err, t6) = invoke p
            (Esp_event_handler_instance_register IP_EVENT IP_EVENT_STA_GOT_IP
               Wifi_event_handler) t5 in
      if err \<noteq> ESP_OK then (err, t6) else
      let wifi_config = station_config cfg_ssid cfg_password in
      let (err, t7) = invoke p (Esp_wifi_set_mode WIFI_MODE_STA) t6 in
      if err \<noteq> ESP_OK then (err, t7) else
      let (err, t8) = invoke p (Esp_wifi_set_config WIFI_IF_STA wifi_config) t7 in
      if err \<noteq> ESP_OK then (err, t8) else
      let (err, t9) = invoke p Esp_wifi_start t8 in
      if err \<noteq> ESP_OK then (err, t9) else
      (ESP_OK,
       t9 @ [Esp_log ESP_LOG_INFO WIFI_TAG
               (''Wi-Fi init STA finished. Connecting to '' @ c_str cfg_ssid)]))"

text \<open>The platform calls of \<open>wifi_init_sta\<close>, in the order of the source text.\<close>

definition sub_steps :: "string \<Rightarrow> string \<Rightarrow> call list" where
  "sub_steps cfg_ssid cfg_password =
     [Esp_netif_init,
      Esp_event_loop_create_default,
      Esp_netif_create_default_wifi_sta,
      Esp_wifi_init WIFI_INIT_CONFIG_DEFAULT,
      Esp_event_handler_instance_register WIFI_EVENT ESP_EVENT_ANY_ID Wifi_event_handler,
      Esp_event_handler_instance_register IP_EVENT IP_EVENT_STA_GOT_IP Wifi_event_handler,
      Esp_wifi_set_mode WIFI_MODE_STA,
      Esp_wifi_set_config WIFI_IF_STA (station_config cfg_ssid cfg_password),
      Esp_wifi_start]"

definition finished_log :: "string \<Rightarrow> call" where
  "finished_log cfg_ssid =
     Esp_log ESP_LOG_INFO WIFI_TAG
       (''Wi-Fi init STA finished. Connecting to '' @ c_str cfg_ssid)"

text \<open>
  When \<open>wifi_init_sta\<close> gives up on a sub-step, by the test the source applies to that
  sub-step's result: a null interface pointer, a status other than success for the
  status-returning calls, and for the event-loop creation a status that is neither
  success nor the invalid-state status.
\<close>

definition gives_up :: "call \<Rightarrow> 32 word \<Rightarrow> bool" where
  "gives_up c r =
     (case c of
        Esp_netif_create_default_wifi_sta \<Rightarrow> r = 0
      | Esp_event_loop_create_default \<Rightarrow> r \<noteq> ESP_OK \<and> r \<noteq> ESP_ERR_INVALID_STATE
      | _ \<Rightarrow> r \<noteq> ESP_OK)"

text \<open>The status returned when giving up on a sub-step.\<close>

definition status_of :: "call \<Rightarrow> 32 word \<Rightarrow> esp_err_t" where
  "status_of c r = (case c of Esp_netif_create_default_wifi_sta \<Rightarrow> ESP_FAIL | _ \<Rightarrow> r)"

text \<open>
  A sequence of guarded calls as a loop: perform the calls in order, stop after the
  first one whose result makes the routine give up.
\<close>

fun run_steps :: "platform \<Rightarrow> call list \<Rightarrow> call list \<Rightarrow> esp_err_t option \<times> call list" where
  "run_steps p [] t = (None, t)"
| "run_steps p (c # cs) t =
     (let (r, t') = invoke p c t in
      if gives_up c r then (Some (status_of c r), t') else run_steps p cs t')"

text \<open>A platform on which every call succeeds.\<close>

definition all_ok :: platform where
  "all_ok t c =
     (case c of
        Esp_netif_create_default_wifi_sta \<Rightarrow> 0x3FFB0000
      | XTaskCreate f n s pr \<Rightarrow> pdPASS
      | _ \<Rightarrow> ESP_OK)"

text \<open>The same platform, except that the default event loop exists already.\<close>

definition loop_exists :: platform where
  "loop_exists t c =
     (case c of
        Esp_event_loop_create_default \<Rightarrow> ESP_ERR_INVALID_STATE
      | _ \<Rightarrow> all_ok t c)"

subsection \<open>The event handler\<close>

record esp_netif_ip_info_t =
  ip :: "32 word"
  netmask :: "32 word"
  gw :: "32 word"

record ip_event_got_ip_t =
  ip_info :: esp_netif_ip_info_t
  ip_changed :: bool

text \<open>
  What the untyped payload pointer of an event points to: the payload of an IP-acquired
  event, or anything else (which the handler only reads in the IP-acquired branch).
\<close>

datatype event_data = Got_ip_data ip_event_got_ip_t | Other_data

definition digit_char :: "nat \<Rightarrow> char" where
  "digit_char n = char_of (48 + n)"

fun dec_digits :: "nat \<Rightarrow> string" where
  "dec_digits n = (if n < 10 then [digit_char n] else dec_digits (n div 10) @ [digit_char (n mod 10)])"

text \<open>
  The four bytes of an address in memory order. The address word holds the address in
  network byte order and the target is little-endian, so the first byte is the low one.
\<close>

definition addr_bytes :: "32 word \<Rightarrow> nat list" where
  "addr_bytes a =
     [unat a mod 256, (unat a div 256) mod 256, (unat a div 65536) mod 256,
      (unat a div 16777216) mod 256]"

fun dotted :: "nat list \<Rightarrow> string" where
  "dotted [] = []"
| "dotted [b] = dec_digits b"
| "dotted (b # bs) = dec_digits b @ ''.'' @ dotted bs"

text \<open>
  Modelled from the spec: the platform routine esp_ip4addr_ntoa is not under src/. The
  spec has the address "formatted in standard dotted-decimal form": the decimal values of
  the four bytes, in memory order, separated by dots. The routine is given the length of
  the buffer and yields the string it stored there, or \<open>None\<close> (a null pointer, the
  buffer left without a terminated string) when string and terminator do not fit.
\<close>

definition esp_ip4addr_ntoa :: "32 word \<Rightarrow> nat \<Rightarrow> string option" where
  "esp_ip4addr_ntoa a buflen =
     (let s = dotted (addr_bytes a) in if length s + 1 \<le> buflen then Some s else None)"

text \<open>
  The handler ignores the status of every call it makes, so it only extends the trace.
  \<open>None\<close> stands for the executions C leaves undefined: the IP-acquired branch entered
  with a payload that is not an IP-acquired payload, or logging a buffer that holds no
  terminated string.
\<close>

definition wifi_event_handler ::
  "esp_event_base_t \<Rightarrow> int32_t \<Rightarrow> event_data \<Rightarrow> call list \<Rightarrow> call list option" where
  "wifi_event_handler event_base event_id data t =
     (if event_base = WIFI_EVENT \<and> event_id = WIFI_EVENT_STA_START then
        Some (t @ [Esp_wifi_connect])
      else if event_base = WIFI_EVENT \<and> event_id = WIFI_EVENT_STA_DISCONNECTED then
        Some (t @ [Esp_log ESP_LOG_WARN WIFI_TAG ''Wi-Fi disconnected, retrying...'',
                   Esp_wifi_connect])
      else if event_base = IP_EVENT \<and> event_id = IP_EVENT_STA_GOT_IP then
        (case data of
           Got_ip_data event \<Rightarrow>
             (case esp_ip4addr_ntoa (ip (ip_info event)) 16 of
                Some ip_str \<Rightarrow>
                  Some (t @ [Esp_log ESP_LOG_INFO WIFI_TAG (''Connected, got IP: '' @ ip_str)])
              | None \<Rightarrow> None)
         | Other_data \<Rightarrow> None)
      else Some t)"

text \<open>The event system delivering a sequence of events to the handler, one after another.\<close>

fun deliver ::
  "(esp_event_base_t \<times> int32_t \<times> event_data) list \<Rightarrow> call list \<Rightarrow> call list option" where
  "deliver [] t = Some t"
| "deliver ((b, i, d) # es) t =
     (case wifi_event_handler b i d t of None \<Rightarrow> None | Some t' \<Rightarrow> deliver es t')"

definition sta_disconnected :: "event_data \<Rightarrow> esp_event_base_t \<times> int32_t \<times> event_data" where
  "sta_disconnected d = (WIFI_EVENT, WIFI_EVENT_STA_DISCONNECTED, d)"

section \<open>audio_stream.c\<close>

definition AUDIO_TAG :: string where
  "AUDIO_TAG = ''audio_stream''"

definition MSG_TYPE_AUDIO_CHUNK :: string where
  "MSG_TYPE_AUDIO_CHUNK = ''MSG_TYPE_AUDIO_CHUNK''"

definition MSG_TYPE_TTS_CHUNK :: string where
  "MSG_TYPE_TTS_CHUNK = ''MSG_TYPE_TTS_CHUNK''"

definition MSG_TYPE_CONTROL :: string where
  "MSG_TYPE_CONTROL = ''MSG_TYPE_CONTROL''"

definition send_log :: call where
  "send_log =
     Esp_log ESP_LOG_INFO AUDIO_TAG (''Sending fake audio chunk ('' @ MSG_TYPE_AUDIO_CHUNK @ '')'')"

definition receive_log :: call where
  "receive_log =
     Esp_log ESP_LOG_INFO AUDIO_TAG (''Pretend receiving TTS data ('' @ MSG_TYPE_TTS_CHUNK @ '')'')"

text \<open>The body of the loop of \<open>audio_stream_task\<close>: one pass over lines 13 to 19.\<close>

definition audio_stream_body :: "call list \<Rightarrow> call list" where
  "audio_stream_body t = t @ [send_log, receive_log, VTaskDelay (PdMS_TO_TICKS 1000)]"

text \<open>
  A run of a task observed for a bounded number of tests of its loop condition: either
  the task is still running, with the calls made so far, or it has returned.
\<close>

datatype task_run = Still_running "call list" | Task_returned "call list"

text \<open>
  A C \<open>while\<close> loop followed by the end of the function. Each test of the condition
  uses one unit of fuel; a condition that fails ends the loop and the task returns.
\<close>

fun while_fuel ::
  "nat \<Rightarrow> (call list \<Rightarrow> bool) \<Rightarrow> (call list \<Rightarrow> call list) \<Rightarrow> call list \<Rightarrow> task_run" where
  "while_fuel 0 cond body t = Still_running t"
| "while_fuel (Suc n) cond body t =
     (if cond t then while_fuel n cond body (body t) else Task_returned t)"

text \<open>
  The task: \<open>while (1)\<close> around the body, with nothing after the loop. The argument
  \<open>pvParameters\<close> is not used.
\<close>

definition audio_stream_task :: "nat \<Rightarrow> 32 word \<Rightarrow> call list \<Rightarrow> task_run" where
  "audio_stream_task fuel pvParameters t = while_fuel fuel (\<lambda>_. True) audio_stream_body t"

section \<open>main.c\<close>

definition MAIN_TAG :: string where
  "MAIN_TAG = ''main''"

datatype outcome = Returned | Halted

text \<open>
  Modelled from the spec: the macro ESP_ERROR_CHECK is the platform's and is not under
  src/. The spec has it as a halt-on-error convention: "any non-success value is treated
  as fatal by the caller". A check that halts ends the run with the platform's abort.
\<close>

definition ESP_ERROR_CHECK_halts :: "esp_err_t \<Rightarrow> bool" where
  "ESP_ERROR_CHECK_halts x = (x \<noteq> ESP_OK)"

definition task_create :: call where
  "task_create = XTaskCreate Audio_stream_task ''audio_stream'' 4096 5"

definition init_log :: call where
  "init_log = Esp_log ESP_LOG_INFO MAIN_TAG ''Initializing Wi-Fi...''"

definition starting_log :: call where
  "starting_log = Esp_log ESP_LOG_INFO MAIN_TAG ''Starting audio stream task...''"

definition failed_log :: call where
  "failed_log = Esp_log ESP_LOG_ERROR MAIN_TAG ''Failed to create audio_stream_task''"

text \<open>
  Lines 15 to 19 of main.c: the value of \<open>ret\<close> with which line 20 is reached, or \<open>None\<close>
  when the check around the erase has halted the run.
\<close>

definition app_main_nvs :: "platform \<Rightarrow> call list \<Rightarrow> esp_err_t option \<times> call list" where
  "app_main_nvs p t0 =
     (let (ret, t1) = invoke p Nvs_flash_init t0 in
      if ret = ESP_ERR_NVS_NO_FREE_PAGES \<or> ret = ESP_ERR_NVS_NEW_VERSION_FOUND then
        (let (erased, t2) = invoke p Nvs_flash_erase t1 in
         if ESP_ERROR_CHECK_halts erased then (None, t2 @ [Abort]) else
         let (ret, t3) = invoke p Nvs_flash_init t2 in (Some ret, t3))
      else (Some ret, t1))"

text \<open>Lines 20 to 32 of main.c, entered with the value of \<open>ret\<close>.\<close>

definition app_main_checked ::
  "platform \<Rightarrow> string \<Rightarrow> string \<Rightarrow> esp_err_t \<Rightarrow> call list \<Rightarrow> outcome \<times> call list" where
  "app_main_checked p cfg_ssid cfg_password ret t =
     (if ESP_ERROR_CHECK_halts ret then (Halted, t @ [Abort]) else
      let t1 = t @ [init_log] in
      let (err, t2) = wifi_init_sta p cfg_ssid cfg_password t1 in
      if ESP_ERROR_CHECK_halts err then (Halted, t2 @ [Abort]) else
      let t3 = t2 @ [starting_log] in
      let (task_created, t4) = invoke p task_create t3 in
      if task_created \<noteq> pdPASS then (Returned, t4 @ [failed_log])
      else (Returned, t4))"

definition app_main ::
  "platform \<Rightarrow> string \<Rightarrow> string \<Rightarrow> call list \<Rightarrow> outcome \<times> call list" where
  "app_main p cfg_ssid cfg_password t0 =
     (case app_main_nvs p t0 of
        (None, t) \<Rightarrow> (Halted, t)
      | (Some ret, t) \<Rightarrow> app_main_checked p cfg_ssid cfg_password ret t)"

section \<open>Some platforms\<close>

text \<open>The radio fails to start.\<close>

definition start_fails :: platform where
  "start_fails t c = (case c of Esp_wifi_start \<Rightarrow> ESP_FAIL | _ \<Rightarrow> all_ok t c)"

text \<open>The task cannot be created (FreeRTOS reports that memory could not be allocated).\<close>

definition task_create_fails :: platform where
  "task_create_fails t c = (case c of XTaskCreate f n s pr \<Rightarrow> - 1 | _ \<Rightarrow> all_ok t c)"

text \<open>The storage partition has no free pages at the first initialisation only.\<close>

definition nvs_full :: platform where
  "nvs_full t c =
     (case c of
        Nvs_flash_init \<Rightarrow> if t = [] then ESP_ERR_NVS_NO_FREE_PAGES else ESP_OK
      | _ \<Rightarrow> all_ok t c)"

text \<open>The storage partition has no free pages and stays so after the erase.\<close>

definition nvs_stays_full :: platform where
  "nvs_stays_full t c =
     (case c of Nvs_flash_init \<Rightarrow> ESP_ERR_NVS_NO_FREE_PAGES | _ \<Rightarrow> all_ok t c)"

text \<open>The storage partition has no free pages and cannot be erased.\<close>

definition erase_fails :: platform where
  "erase_fails t c =
     (case c of
        Nvs_flash_init \<Rightarrow> ESP_ERR_NVS_NO_FREE_PAGES
      | Nvs_flash_erase \<Rightarrow> ESP_FAIL
      | _ \<Rightarrow> all_ok t c)"

text \<open>The storage partition is not found.\<close>

definition nvs_missing :: platform where
  "nvs_missing t c = (case c of Nvs_flash_init \<Rightarrow> 0x105 | _ \<Rightarrow> all_ok t c)"

section \<open>Statements of the specification, for comparison\<close>

text \<open>
  The order of sub-steps as the specification words it: configuration applied before the
  station mode is set.
\<close>

definition spec_order :: "string \<Rightarrow> string \<Rightarrow> call list" where
  "spec_order cfg_ssid cfg_password =
     [Esp_netif_init,
      Esp_event_loop_create_default,
      Esp_netif_create_default_wifi_sta,
      Esp_wifi_init WIFI_INIT_CONFIG_DEFAULT,
      Esp_event_handler_instance_register WIFI_EVENT ESP_EVENT_ANY_ID Wifi_event_handler,
      Esp_event_handler_instance_register IP_EVENT IP_EVENT_STA_GOT_IP Wifi_event_handler,
      Esp_wifi_set_config WIFI_IF_STA (station_config cfg_ssid cfg_password),
      Esp_wifi_set_mode WIFI_MODE_STA,
      Esp_wifi_start]"

text \<open>
  Reading a dotted-decimal text: the text is cut at the dots, each field is read as a
  decimal number, and the numbers are the bytes of the address in memory order. It is
  the sense in which a logged text "exactly matches" an address.
\<close>

definition digit_val :: "char \<Rightarrow> nat" where
  "digit_val c = of_char c - 48"

definition undec :: "string \<Rightarrow> nat" where
  "undec s = foldl (\<lambda>a c. 10 * a + digit_val c) 0 s"

definition DOT :: char where
  "DOT = CHR ''.''"

fun dot_fields :: "string \<Rightarrow> string list" where
  "dot_fields [] = [[]]"
| "dot_fields (c # cs) =
     (if c = DOT then [] # dot_fields cs
      else (case dot_fields cs of [] \<Rightarrow> [[c]] | f # fs \<Rightarrow> (c # f) # fs))"

definition addr_of_bytes :: "nat list \<Rightarrow> 32 word" where
  "addr_of_bytes bs = word_of_nat (foldr (\<lambda>b n. b + 256 * n) bs 0)"

definition ip4_of_dotted :: "string \<Rightarrow> 32 word" where
  "ip4_of_dotted s = addr_of_bytes (map undec (dot_fields s))"

section \<open>Properties of wifi_init_sta\<close>

lemma wifi_init_sta_run_steps:
  "wifi_init_sta p s pw t0 =
     (case run_steps p (sub_steps s pw) t0 of
        (Some e, t) \<Rightarrow> (e, t)
      | (None, t) \<Rightarrow> (ESP_OK, t @ [finished_log s]))"
  by (simp add: wifi_init_sta_def sub_steps_def invoke_def gives_up_def status_of_def
      finished_log_def Let_def)

lemma gives_up_status: "gives_up c r \<Longrightarrow> status_of c r \<noteq> ESP_OK"
  by (cases c) (simp_all add: gives_up_def status_of_def ESP_FAIL_def ESP_OK_def)

lemma run_steps_stop:
  assumes "i < length cs"
    and "\<forall>j<i. \<not> gives_up (cs ! j) (p (t @ take j cs) (cs ! j))"
    and "gives_up (cs ! i) (p (t @ take i cs) (cs ! i))"
  shows "run_steps p cs t = (Some (status_of (cs ! i) (p (t @ take i cs) (cs ! i))), t @ take (Suc i) cs)"
  using assms
proof (induction cs arbitrary: i t)
  case Nil
  then show ?case by simp
next
  case (Cons c cs)
  show ?case
  proof (cases i)
    case 0
    with Cons.prems show ?thesis by (simp add: invoke_def)
  next
    case (Suc k)
    from Cons.prems(2) Suc have c_ok: "\<not> gives_up c (p t c)"
      by (auto dest: spec [where x = 0])
    have k_len: "k < length cs" using Cons.prems(1) Suc by simp
    have before: "\<forall>j<k. \<not> gives_up (cs ! j) (p ((t @ [c]) @ take j cs) (cs ! j))"
    proof (intro allI impI)
      fix j assume "j < k"
      then have "Suc j < i" using Suc by simp
      with Cons.prems(2) have "\<not> gives_up ((c # cs) ! Suc j) (p (t @ take (Suc j) (c # cs)) ((c # cs) ! Suc j))"
        by blast
      then show "\<not> gives_up (cs ! j) (p ((t @ [c]) @ take j cs) (cs ! j))" by simp
    qed
    have at: "gives_up (cs ! k) (p ((t @ [c]) @ take k cs) (cs ! k))"
      using Cons.prems(3) Suc by simp
    from Cons.IH [OF k_len before at] c_ok Suc show ?thesis
      by (simp add: invoke_def)
  qed
qed

lemma run_steps_result:
  "run_steps p cs t = (r, t') \<Longrightarrow>
     (r = None \<and> t' = t @ cs) \<or>
     (\<exists>i<length cs. r = Some (status_of (cs ! i) (p (t @ take i cs) (cs ! i))) \<and>
        gives_up (cs ! i) (p (t @ take i cs) (cs ! i)) \<and> t' = t @ take (Suc i) cs)"
proof (induction cs arbitrary: t)
  case Nil
  then show ?case by auto
next
  case (Cons c cs)
  show ?case
  proof (cases "gives_up c (p t c)")
    case True
    with Cons.prems have "r = Some (status_of c (p t c))" "t' = t @ [c]"
      by (auto simp: invoke_def)
    with True show ?thesis by (intro disjI2 exI [where x = 0]) simp
  next
    case False
    with Cons.prems have "run_steps p cs (t @ [c]) = (r, t')"
      by (simp add: invoke_def)
    from Cons.IH [OF this] show ?thesis
    proof
      assume "r = None \<and> t' = (t @ [c]) @ cs"
      then show ?thesis by simp
    next
      assume "\<exists>i<length cs. r = Some (status_of (cs ! i) (p ((t @ [c]) @ take i cs) (cs ! i))) \<and>
        gives_up (cs ! i) (p ((t @ [c]) @ take i cs) (cs ! i)) \<and> t' = (t @ [c]) @ take (Suc i) cs"
      then obtain i where "i < length cs"
        "r = Some (status_of (cs ! i) (p ((t @ [c]) @ take i cs) (cs ! i)))"
        "gives_up (cs ! i) (p ((t @ [c]) @ take i cs) (cs ! i))"
        "t' = (t @ [c]) @ take (Suc i) cs" by blast
      then show ?thesis by (intro disjI2 exI [where x = "Suc i"]) simp
    qed
  qed
qed

lemma wifi_init_sta_ok_trace:
  assumes "fst (wifi_init_sta p s pw t0) = ESP_OK"
  shows "snd (wifi_init_sta p s pw t0) = t0 @ sub_steps s pw @ [finished_log s]"
proof -
  obtain r t' where rs: "run_steps p (sub_steps s pw) t0 = (r, t')" by (cases "run_steps p (sub_steps s pw) t0")
  from run_steps_result [OF rs] show ?thesis
  proof
    assume "r = None \<and> t' = t0 @ sub_steps s pw"
    with rs show ?thesis by (simp add: wifi_init_sta_run_steps)
  next
    assume "\<exists>i<length (sub_steps s pw). r = Some (status_of (sub_steps s pw ! i) (p (t0 @ take i (sub_steps s pw)) (sub_steps s pw ! i))) \<and>
        gives_up (sub_steps s pw ! i) (p (t0 @ take i (sub_steps s pw)) (sub_steps s pw ! i)) \<and> t' = t0 @ take (Suc i) (sub_steps s pw)"
    then obtain i where "r = Some (status_of (sub_steps s pw ! i) (p (t0 @ take i (sub_steps s pw)) (sub_steps s pw ! i)))"
      "gives_up (sub_steps s pw ! i) (p (t0 @ take i (sub_steps s pw)) (sub_steps s pw ! i))" by blast
    with rs assms gives_up_status show ?thesis
      by (auto simp: wifi_init_sta_run_steps)
  qed
qed

lemma wifi_init_sta_all_ok:
  "wifi_init_sta all_ok s pw t0 = (ESP_OK, t0 @ sub_steps s pw @ [finished_log s])"
  by (simp add: wifi_init_sta_def invoke_def all_ok_def sub_steps_def finished_log_def
      ESP_OK_def)

text \<open>
  C1. Whatever the platform answers: when sub-step \<open>i\<close> of the bring-up is the first that
  fails (a status other than success from the network-abstraction init, the radio init,
  either handler registration, the mode set, the configuration or the radio start; a
  null pointer from the interface creation; and from the event-loop creation, which
  tolerates a loop that exists already, a status that is neither success nor the
  invalid-state status), \<open>wifi_init_sta\<close> returns a status that is not success (the
  failing status itself, or the generic failure for a null interface), and the calls it
  has made are exactly the sub-steps up to and including \<open>i\<close>: no later sub-step is
  invoked.
\<close>

theorem wifi_init_sta_fail_fast:
  assumes "i < length (sub_steps s pw)"
    and "\<forall>j<i. \<not> gives_up (sub_steps s pw ! j) (p (t0 @ take j (sub_steps s pw)) (sub_steps s pw ! j))"
    and "gives_up (sub_steps s pw ! i) (p (t0 @ take i (sub_steps s pw)) (sub_steps s pw ! i))"
  shows "fst (wifi_init_sta p s pw t0) \<noteq> ESP_OK \<and>
         fst (wifi_init_sta p s pw t0) = status_of (sub_steps s pw ! i) (p (t0 @ take i (sub_steps s pw)) (sub_steps s pw ! i)) \<and>
         snd (wifi_init_sta p s pw t0) = t0 @ take (Suc i) (sub_steps s pw)"
  using run_steps_stop [OF assms] gives_up_status [OF assms(3)]
  by (simp add: wifi_init_sta_run_steps)

text \<open>The theorem at a platform whose radio initialisation fails with status 0x101.\<close>

theorem wifi_init_sta_fail_fast_witness:
  "fst (wifi_init_sta (\<lambda>t c. if c = Esp_wifi_init WIFI_INIT_CONFIG_DEFAULT then 0x101 else all_ok t c)
          ''net'' ''secret'' []) = 0x101 \<and>
   snd (wifi_init_sta (\<lambda>t c. if c = Esp_wifi_init WIFI_INIT_CONFIG_DEFAULT then 0x101 else all_ok t c)
          ''net'' ''secret'' []) =
     [Esp_netif_init, Esp_event_loop_create_default, Esp_netif_create_default_wifi_sta,
      Esp_wifi_init WIFI_INIT_CONFIG_DEFAULT]"
proof -
  let ?p = "\<lambda>t c. if c = Esp_wifi_init WIFI_INIT_CONFIG_DEFAULT then 0x101 else all_ok t c"
  let ?cs = "sub_steps ''net'' ''secret''"
  have len: "3 < length ?cs"
    by (simp add: sub_steps_def)
  have before: "\<forall>j<3. \<not> gives_up (?cs ! j) (?p ([] @ take j ?cs) (?cs ! j))"
    by (simp add: numeral_3_eq_3 less_Suc_eq all_conj_distrib sub_steps_def gives_up_def
        all_ok_def ESP_OK_def)
  have at: "gives_up (?cs ! 3) (?p ([] @ take 3 ?cs) (?cs ! 3))"
    by (simp add: sub_steps_def gives_up_def ESP_OK_def)
  from wifi_init_sta_fail_fast [OF len before at] show ?thesis
    by (simp add: sub_steps_def status_of_def)
qed

text \<open>
  C3 (as amended). On every run of \<open>wifi_init_sta\<close> that returns success, whatever the
  platform and the calls made before, the calls of the run are exactly these, in this
  order: initialise the network abstraction layer, create the default event loop, create
  the default station interface, initialise the radio, register the handler for all radio
  events and then for the IP-acquired event, set station mode, apply the station
  configuration (name, passphrase, WPA2-PSK threshold, management-frame protection
  capable and not required), start the radio, and log the completion line. The mode is
  set before the configuration is applied.
\<close>

theorem wifi_init_sta_in_order:
  assumes "fst (wifi_init_sta p s pw t0) = ESP_OK"
  shows "snd (wifi_init_sta p s pw t0) =
     t0 @ [Esp_netif_init,
       Esp_event_loop_create_default,
       Esp_netif_create_default_wifi_sta,
       Esp_wifi_init WIFI_INIT_CONFIG_DEFAULT,
       Esp_event_handler_instance_register WIFI_EVENT ESP_EVENT_ANY_ID Wifi_event_handler,
       Esp_event_handler_instance_register IP_EVENT IP_EVENT_STA_GOT_IP Wifi_event_handler,
       Esp_wifi_set_mode WIFI_MODE_STA,
       Esp_wifi_set_config WIFI_IF_STA
         \<lparr> ssid = strlcpy (replicate SSID_SIZE NUL) s SSID_SIZE,
           password = strlcpy (replicate PASSWORD_SIZE NUL) pw PASSWORD_SIZE,
           threshold_authmode = WIFI_AUTH_WPA2_PSK,
           pmf_capable = True,
           pmf_required = False \<rparr>,
       Esp_wifi_start,
       Esp_log ESP_LOG_INFO WIFI_TAG (''Wi-Fi init STA finished. Connecting to '' @ c_str s)]"
  using wifi_init_sta_ok_trace [OF assms]
  by (simp add: sub_steps_def finished_log_def station_config_def)

text \<open>A successful run exists: the platform on which every call succeeds.\<close>

theorem wifi_init_sta_in_order_witness:
  "fst (wifi_init_sta all_ok ''net'' ''secret'' []) = ESP_OK \<and>
   snd (wifi_init_sta all_ok ''net'' ''secret'' []) ! 6 = Esp_wifi_set_mode WIFI_MODE_STA \<and>
   snd (wifi_init_sta all_ok ''net'' ''secret'' []) ! 7 =
     Esp_wifi_set_config WIFI_IF_STA (station_config ''net'' ''secret'') \<and>
   length (snd (wifi_init_sta all_ok ''net'' ''secret'' [])) = 10"
proof -
  have ok: "fst (wifi_init_sta all_ok ''net'' ''secret'' []) = ESP_OK"
    by (simp add: wifi_init_sta_all_ok)
  from wifi_init_sta_in_order [OF ok] ok show ?thesis
    by (simp add: station_config_def)
qed

text \<open>
  C3 as the specification states it, with the configuration applied before the mode is
  set, fails on the code: on the platform where every call succeeds, the seventh call of
  the run sets the mode, where the specification's order applies the configuration.
\<close>

theorem wifi_init_sta_in_order_counterexample:
  "fst (wifi_init_sta all_ok ''net'' ''secret'' []) = ESP_OK \<and>
   take 9 (snd (wifi_init_sta all_ok ''net'' ''secret'' [])) \<noteq> spec_order ''net'' ''secret'' \<and>
   take 9 (snd (wifi_init_sta all_ok ''net'' ''secret'' [])) ! 6 = Esp_wifi_set_mode WIFI_MODE_STA \<and>
   spec_order ''net'' ''secret'' ! 6 = Esp_wifi_set_config WIFI_IF_STA (station_config ''net'' ''secret'')"
  by (simp add: wifi_init_sta_all_ok sub_steps_def spec_order_def)

text \<open>
  C7. When the network layer initialises and the event-loop creation reports the
  invalid-state status (a default loop exists already), \<open>wifi_init_sta\<close> does not return
  at that sub-step: its next call creates the station interface, and its result and calls
  are those of the same platform with the event-loop creation reporting success.
\<close>

theorem wifi_init_sta_existing_loop:
  assumes "p t0 Esp_netif_init = ESP_OK"
    and "p (t0 @ [Esp_netif_init]) Esp_event_loop_create_default = ESP_ERR_INVALID_STATE"
  shows "take 3 (drop (length t0) (snd (wifi_init_sta p s pw t0))) =
           [Esp_netif_init, Esp_event_loop_create_default, Esp_netif_create_default_wifi_sta] \<and>
         wifi_init_sta p s pw t0 =
           wifi_init_sta
             (p(t0 @ [Esp_netif_init] := (p (t0 @ [Esp_netif_init]))(Esp_event_loop_create_default := ESP_OK)))
             s pw t0"
  using assms
  by (simp add: wifi_init_sta_def invoke_def Let_def)

text \<open>On the platform whose event loop exists already the whole bring-up runs and succeeds.\<close>

theorem wifi_init_sta_existing_loop_witness:
  "wifi_init_sta loop_exists ''net'' ''secret'' [] =
     (ESP_OK, sub_steps ''net'' ''secret'' @ [finished_log ''net'']) \<and>
   wifi_init_sta
     (loop_exists([Esp_netif_init] := (loop_exists [Esp_netif_init])(Esp_event_loop_create_default := ESP_OK)))
     ''net'' ''secret'' [] =
     (ESP_OK, sub_steps ''net'' ''secret'' @ [finished_log ''net''])"
proof -
  have a: "loop_exists [] Esp_netif_init = ESP_OK"
    by (simp add: loop_exists_def all_ok_def)
  have b: "loop_exists ([] @ [Esp_netif_init]) Esp_event_loop_create_default = ESP_ERR_INVALID_STATE"
    by (simp add: loop_exists_def)
  have c: "wifi_init_sta loop_exists ''net'' ''secret'' [] =
     (ESP_OK, sub_steps ''net'' ''secret'' @ [finished_log ''net''])"
    by (simp add: wifi_init_sta_def invoke_def loop_exists_def all_ok_def
      sub_steps_def finished_log_def ESP_OK_def ESP_ERR_INVALID_STATE_def)
  from wifi_init_sta_existing_loop [OF a b, of "''net''" "''secret''"] c show ?thesis
    by simp
qed

section \<open>Properties of the event handler\<close>

text \<open>
  C2. Whatever calls were made before (in particular, however many reconnect attempts),
  delivering any sequence of station-disconnected events, with any payloads, to the
  handler makes it log one warning and call \<open>esp_wifi_connect\<close> once for each event, in
  order: the number of connect calls grows by exactly the number of events. The handler
  keeps no count and consults no result, so there is no limit, backoff or debouncing.
\<close>

theorem disconnect_reconnects:
  "\<exists>t'. deliver (map sta_disconnected ds) t = Some t' \<and>
     t' = t @ concat (map (\<lambda>d. [Esp_log ESP_LOG_WARN WIFI_TAG ''Wi-Fi disconnected, retrying...'',
                                 Esp_wifi_connect]) ds) \<and>
     length (filter (\<lambda>c. c = Esp_wifi_connect) t') =
       length (filter (\<lambda>c. c = Esp_wifi_connect) t) + length ds"
  by (induction ds arbitrary: t)
     (simp_all add: sta_disconnected_def wifi_event_handler_def
        WIFI_EVENT_STA_DISCONNECTED_def WIFI_EVENT_STA_START_def)

declare dec_digits.simps [simp del]

lemma dec_digits_small: "n < 10 \<Longrightarrow> dec_digits n = [digit_char n]"
  by (subst dec_digits.simps) simp

lemma dec_digits_big:
  "\<not> n < 10 \<Longrightarrow> dec_digits n = dec_digits (n div 10) @ [digit_char (n mod 10)]"
  by (subst dec_digits.simps) simp

lemma length_dec_digits: "n < 256 \<Longrightarrow> length (dec_digits n) \<le> 3"
proof -
  assume n: "n < 256"
  show ?thesis
  proof (cases "n < 10")
    case True
    then show ?thesis by (simp add: dec_digits_small)
  next
    case False
    show ?thesis
    proof (cases "n div 10 < 10")
      case True
      with False show ?thesis by (simp add: dec_digits_big dec_digits_small)
    next
      case d: False
      from n have "n div 10 div 10 < 10" by simp
      with False d show ?thesis by (simp add: dec_digits_big dec_digits_small)
    qed
  qed
qed

lemma digit_val_digit_char: "n < 10 \<Longrightarrow> digit_val (digit_char n) = n"
  by (simp add: digit_val_def digit_char_def)

lemma digit_char_not_DOT: "n < 10 \<Longrightarrow> digit_char n \<noteq> DOT"
proof
  assume n: "n < 10" and "digit_char n = DOT"
  then have "of_char (digit_char n) = (of_char DOT :: nat)" by simp
  with n show False by (simp add: DOT_def digit_char_def)
qed

lemma undec_snoc: "undec (s @ [c]) = 10 * undec s + digit_val c"
  by (simp add: undec_def)

lemma undec_dec_digits: "undec (dec_digits n) = n"
proof (induction n rule: dec_digits.induct)
  case (1 n)
  show ?case
  proof (cases "n < 10")
    case True
    then show ?thesis by (simp add: dec_digits_small undec_def digit_val_digit_char)
  next
    case False
    with "1.IH" have "undec (dec_digits (n div 10)) = n div 10" by simp
    with False show ?thesis
      by (simp add: dec_digits_big undec_snoc digit_val_digit_char)
  qed
qed

lemma DOT_notin_dec_digits: "DOT \<notin> set (dec_digits n)"
proof (induction n rule: dec_digits.induct)
  case (1 n)
  show ?case
  proof (cases "n < 10")
    case True
    then show ?thesis using digit_char_not_DOT [of n] by (auto simp: dec_digits_small)
  next
    case False
    with "1.IH" have "DOT \<notin> set (dec_digits (n div 10))" by simp
    moreover have "digit_char (n mod 10) \<noteq> DOT" by (rule digit_char_not_DOT) simp
    ultimately show ?thesis using False by (auto simp: dec_digits_big)
  qed
qed

lemma dot_fields_no_dot: "DOT \<notin> set s \<Longrightarrow> dot_fields s = [s]"
  by (induction s) auto

lemma dot_fields_append_dot: "DOT \<notin> set s \<Longrightarrow> dot_fields (s @ DOT # r) = s # dot_fields r"
  by (induction s) auto

lemma dot_fields_dotted: "map undec (dot_fields (dotted bs)) = (if bs = [] then [0] else bs)"
proof (induction bs rule: dotted.induct)
  case 1
  show ?case by (simp add: undec_def)
next
  case (2 b)
  show ?case by (simp add: dot_fields_no_dot DOT_notin_dec_digits undec_dec_digits)
next
  case (3 b v va)
  have "dotted (b # v # va) = dec_digits b @ DOT # dotted (v # va)"
    by (simp add: DOT_def)
  with 3 show ?case
    by (simp add: dot_fields_append_dot DOT_notin_dec_digits undec_dec_digits del: dotted.simps)
qed

lemma bytes_sum:
  fixes n :: nat
  shows "n mod 256 + 256 * ((n div 256) mod 256 + 256 * ((n div 65536) mod 256
          + 256 * ((n div 16777216) mod 256))) = n mod 4294967296"
proof -
  have a: "n div 65536 = n div 256 div 256" by (simp add: div_mult2_eq)
  have b: "n div 16777216 = n div 256 div 256 div 256" by (simp add: div_mult2_eq)
  have "n mod 4294967296 = n mod (256 * (256 * (256 * 256)))" by simp
  also have "\<dots> = n mod 256 + 256 * ((n div 256) mod 256 + 256 * ((n div 256 div 256) mod 256
          + 256 * ((n div 256 div 256 div 256) mod 256)))"
    by (simp only: mod_mult2_eq add.commute)
  finally show ?thesis by (simp only: a b)
qed

lemma addr_of_bytes_addr_bytes: "addr_of_bytes (addr_bytes a) = a"
proof -
  have "unat a < 4294967296"
    using unsigned_less [of a, where 'a = nat] by simp
  then have "unat a mod 4294967296 = unat a" by simp
  with bytes_sum [of "unat a"] show ?thesis
    by (simp add: addr_of_bytes_def addr_bytes_def)
qed

lemma length_dotted_addr: "length (dotted (addr_bytes a)) \<le> 15"
proof -
  have "length (dec_digits (unat a mod 256)) \<le> 3"
       "length (dec_digits ((unat a div 256) mod 256)) \<le> 3"
       "length (dec_digits ((unat a div 65536) mod 256)) \<le> 3"
       "length (dec_digits ((unat a div 16777216) mod 256)) \<le> 3"
    by (simp_all add: length_dec_digits)
  then show ?thesis by (simp add: addr_bytes_def)
qed

text \<open>
  C5. For every IP-acquired event whose payload carries an IPv4 address, and after any
  calls, the handler logs exactly one informational line, "Connected, got IP: " followed
  by the dotted-decimal text of the \<open>ip\<close> field of the payload: the 16-byte buffer always
  holds the text and its terminator, so nothing is cut, and reading the logged text back
  gives the address of the payload.
\<close>

theorem got_ip_logged:
  "\<exists>ip_str. wifi_event_handler IP_EVENT IP_EVENT_STA_GOT_IP (Got_ip_data event) t =
       Some (t @ [Esp_log ESP_LOG_INFO WIFI_TAG (''Connected, got IP: '' @ ip_str)]) \<and>
     ip_str = dotted (addr_bytes (ip (ip_info event))) \<and>
     ip4_of_dotted ip_str = ip (ip_info event)"
proof -
  have fits: "esp_ip4addr_ntoa (ip (ip_info event)) 16 = Some (dotted (addr_bytes (ip (ip_info event))))"
    using length_dotted_addr [of "ip (ip_info event)"] by (simp add: esp_ip4addr_ntoa_def)
  have roundtrip: "ip4_of_dotted (dotted (addr_bytes (ip (ip_info event)))) = ip (ip_info event)"
    by (simp add: ip4_of_dotted_def dot_fields_dotted addr_of_bytes_addr_bytes)
       (simp add: addr_bytes_def)
  show ?thesis
    by (simp add: wifi_event_handler_def fits roundtrip)
qed

section \<open>Properties of the station configuration\<close>

lemma c_str_no_NUL: "NUL \<notin> set (c_str s)"
  by (auto simp: c_str_def dest: set_takeWhileD)

lemma c_str_strlcpy:
  "0 < n \<Longrightarrow> c_str (strlcpy dst src n) = take (n - 1) (c_str src)"
proof -
  assume n: "0 < n"
  have "\<And>x. x \<in> set (take (n - 1) (c_str src)) \<Longrightarrow> x \<noteq> NUL"
    using c_str_no_NUL [of src] by (auto dest: in_set_takeD)
  then have "takeWhile (\<lambda>c. c \<noteq> NUL) (take (n - 1) (c_str src) @ [NUL] @ drop (length (take (n - 1) (c_str src)) + 1) dst)
      = take (n - 1) (c_str src) @ takeWhile (\<lambda>c. c \<noteq> NUL) ([NUL] @ drop (length (take (n - 1) (c_str src)) + 1) dst)"
    by (rule takeWhile_append2)
  with n show ?thesis
    by (simp add: strlcpy_def c_str_def [of "_ @ _"] Let_def)
qed

lemma length_strlcpy:
  "0 < n \<Longrightarrow> n \<le> length dst \<Longrightarrow> length (strlcpy dst src n) = length dst"
  by (auto simp: strlcpy_def Let_def)

lemma strlcpy_terminated:
  "0 < n \<Longrightarrow> strlcpy dst src n ! length (c_str (strlcpy dst src n)) = NUL"
proof -
  assume n: "0 < n"
  then have "length (c_str (strlcpy dst src n)) = length (take (n - 1) (c_str src))"
    by (simp only: c_str_strlcpy)
  with n show ?thesis
    by (simp add: strlcpy_def Let_def nth_append del: length_take)
qed

lemma wifi_init_sta_calls:
  "set (snd (wifi_init_sta p s pw t0)) \<subseteq> set t0 \<union> set (sub_steps s pw) \<union> {finished_log s}"
proof -
  obtain r t' where rs: "run_steps p (sub_steps s pw) t0 = (r, t')"
    by (cases "run_steps p (sub_steps s pw) t0")
  from run_steps_result [OF rs] have "set t' \<subseteq> set t0 \<union> set (sub_steps s pw)"
    by (auto dest: in_set_takeD)
  with rs show ?thesis
    by (auto simp: wifi_init_sta_run_steps split: option.splits)
qed

text \<open>
  C6 (as amended). Every station configuration that \<open>wifi_init_sta\<close> passes to the radio,
  on any platform, is for the station interface; its SSID field is 32 bytes and its
  password field 64 bytes; each holds a NUL-terminated string, which is the configured
  name cut to its first 31 bytes and the configured passphrase cut to its first 63 bytes
  (one less than the field size, so that the terminator fits). They equal the configured
  values whenever those are at most 31 and 63 bytes long.
\<close>

theorem station_config_fields:
  assumes "Esp_wifi_set_config iface cfg \<in> set (snd (wifi_init_sta p s pw []))"
  shows "iface = WIFI_IF_STA \<and>
         length (ssid cfg) = 32 \<and> length (password cfg) = 64 \<and>
         c_str (ssid cfg) = take 31 (c_str s) \<and>
         c_str (password cfg) = take 63 (c_str pw) \<and>
         ssid cfg ! length (c_str (ssid cfg)) = NUL \<and>
         password cfg ! length (c_str (password cfg)) = NUL \<and>
         (length (c_str s) \<le> 31 \<longrightarrow> c_str (ssid cfg) = c_str s) \<and>
         (length (c_str pw) \<le> 63 \<longrightarrow> c_str (password cfg) = c_str pw)"
proof -
  from assms wifi_init_sta_calls [of p s pw "[]"]
  have "Esp_wifi_set_config iface cfg \<in> set (sub_steps s pw) \<union> {finished_log s}"
    by auto
  then have iface: "iface = WIFI_IF_STA" and cfg: "cfg = station_config s pw"
    by (simp_all add: sub_steps_def finished_log_def)
  have s1: "c_str (ssid cfg) = take 31 (c_str s)"
    using c_str_strlcpy [of SSID_SIZE "replicate SSID_SIZE NUL" s]
    by (simp add: cfg station_config_def SSID_SIZE_def)
  have p1: "c_str (password cfg) = take 63 (c_str pw)"
    using c_str_strlcpy [of PASSWORD_SIZE "replicate PASSWORD_SIZE NUL" pw]
    by (simp add: cfg station_config_def PASSWORD_SIZE_def)
  have s2: "length (ssid cfg) = 32"
    using length_strlcpy [of SSID_SIZE "replicate SSID_SIZE NUL" s]
    by (simp add: cfg station_config_def SSID_SIZE_def)
  have p2: "length (password cfg) = 64"
    using length_strlcpy [of PASSWORD_SIZE "replicate PASSWORD_SIZE NUL" pw]
    by (simp add: cfg station_config_def PASSWORD_SIZE_def)
  have s3: "ssid cfg ! length (c_str (ssid cfg)) = NUL"
    using strlcpy_terminated [of SSID_SIZE "replicate SSID_SIZE NUL" s]
    by (simp add: cfg station_config_def SSID_SIZE_def)
  have p3: "password cfg ! length (c_str (password cfg)) = NUL"
    using strlcpy_terminated [of PASSWORD_SIZE "replicate PASSWORD_SIZE NUL" pw]
    by (simp add: cfg station_config_def PASSWORD_SIZE_def)
  from iface s1 p1 s2 p2 s3 p3 show ?thesis by simp
qed

text \<open>On the platform where every call succeeds the configuration reaches the radio.\<close>

theorem station_config_fields_witness:
  "Esp_wifi_set_config WIFI_IF_STA (station_config ''net'' ''secret'')
     \<in> set (snd (wifi_init_sta all_ok ''net'' ''secret'' [])) \<and>
   c_str (ssid (station_config ''net'' ''secret'')) = ''net'' \<and>
   c_str (password (station_config ''net'' ''secret'')) = ''secret'' \<and>
   length (ssid (station_config ''net'' ''secret'')) = 32"
proof -
  have m: "Esp_wifi_set_config WIFI_IF_STA (station_config ''net'' ''secret'')
     \<in> set (snd (wifi_init_sta all_ok ''net'' ''secret'' []))"
    by (simp add: wifi_init_sta_all_ok sub_steps_def)
  from station_config_fields [OF m] m show ?thesis
    by (simp add: c_str_def NUL_def)
qed

text \<open>
  C6 as the specification states it fails on the code: a configured name of exactly 32
  bytes does not exceed the 32-byte field, yet the field passed to the radio holds only
  its first 31 bytes.
\<close>

theorem station_config_fields_counterexample:
  "length ''abcdefghijklmnopqrstuvwxyz012345'' = SSID_SIZE \<and>
   Esp_wifi_set_config WIFI_IF_STA (station_config ''abcdefghijklmnopqrstuvwxyz012345'' ''secret'')
     \<in> set (snd (wifi_init_sta all_ok ''abcdefghijklmnopqrstuvwxyz012345'' ''secret'' [])) \<and>
   c_str (ssid (station_config ''abcdefghijklmnopqrstuvwxyz012345'' ''secret'')) =
     ''abcdefghijklmnopqrstuvwxyz01234'' \<and>
   c_str (ssid (station_config ''abcdefghijklmnopqrstuvwxyz012345'' ''secret'')) \<noteq>
     ''abcdefghijklmnopqrstuvwxyz012345''"
  by (simp add: wifi_init_sta_all_ok sub_steps_def station_config_def strlcpy_def
      c_str_def SSID_SIZE_def NUL_def Let_def)

section \<open>Properties of the streaming task\<close>

lemma while_fuel_forever:
  "while_fuel n (\<lambda>_. True) (\<lambda>t. t @ xs) t = Still_running (t @ concat (replicate n xs))"
  by (induction n arbitrary: t) simp_all

lemma audio_stream_body_appends:
  "audio_stream_body = (\<lambda>t. t @ [send_log, receive_log, VTaskDelay (PdMS_TO_TICKS 1000)])"
  by (simp add: fun_eq_iff audio_stream_body_def)

text \<open>
  C4. Started with any argument and after any calls, \<open>audio_stream_task\<close> never returns:
  however long its run is observed, it is still running, and after \<open>n\<close> passes of its loop
  the calls it has made are exactly \<open>n\<close> repetitions of one "send" line, then one
  "receive" line, both at the informational level, then one delay of the tick count for
  1000 milliseconds.
\<close>

theorem audio_stream_task_forever:
  "audio_stream_task n a t =
     Still_running (t @ concat (replicate n
       [Esp_log ESP_LOG_INFO ''audio_stream'' ''Sending fake audio chunk (MSG_TYPE_AUDIO_CHUNK)'',
        Esp_log ESP_LOG_INFO ''audio_stream'' ''Pretend receiving TTS data (MSG_TYPE_TTS_CHUNK)'',
        VTaskDelay (PdMS_TO_TICKS 1000)])) \<and>
   (\<forall>tr. audio_stream_task n a t \<noteq> Task_returned tr)"
proof -
  have "audio_stream_task n a t =
      Still_running (t @ concat (replicate n [send_log, receive_log, VTaskDelay (PdMS_TO_TICKS 1000)]))"
    by (simp add: audio_stream_task_def audio_stream_body_appends while_fuel_forever)
  then show ?thesis
    by (simp add: send_log_def receive_log_def AUDIO_TAG_def MSG_TYPE_AUDIO_CHUNK_def
        MSG_TYPE_TTS_CHUNK_def)
qed

section \<open>Properties of app_main\<close>

lemma wifi_init_sta_extends:
  "\<exists>ext. snd (wifi_init_sta p s pw t0) = t0 @ ext \<and>
         set ext \<subseteq> set (sub_steps s pw) \<union> {finished_log s} \<and>
         take 1 ext = [Esp_netif_init]"
proof -
  obtain r t' where rs: "run_steps p (sub_steps s pw) t0 = (r, t')"
    by (cases "run_steps p (sub_steps s pw) t0")
  from run_steps_result [OF rs] show ?thesis
  proof
    assume "r = None \<and> t' = t0 @ sub_steps s pw"
    with rs have "snd (wifi_init_sta p s pw t0) = t0 @ (sub_steps s pw @ [finished_log s])"
      by (simp add: wifi_init_sta_run_steps)
    moreover have "take 1 (sub_steps s pw @ [finished_log s]) = [Esp_netif_init]"
      by (simp add: sub_steps_def)
    ultimately show ?thesis by (intro exI [where x = "sub_steps s pw @ [finished_log s]"]) auto
  next
    assume "\<exists>i<length (sub_steps s pw).
      r = Some (status_of (sub_steps s pw ! i) (p (t0 @ take i (sub_steps s pw)) (sub_steps s pw ! i))) \<and>
      gives_up (sub_steps s pw ! i) (p (t0 @ take i (sub_steps s pw)) (sub_steps s pw ! i)) \<and>
      t' = t0 @ take (Suc i) (sub_steps s pw)"
    then obtain i where r: "r = Some (status_of (sub_steps s pw ! i) (p (t0 @ take i (sub_steps s pw)) (sub_steps s pw ! i)))"
      and t': "t' = t0 @ take (Suc i) (sub_steps s pw)" by blast
    from rs r t' have "snd (wifi_init_sta p s pw t0) = t0 @ take (Suc i) (sub_steps s pw)"
      by (simp add: wifi_init_sta_run_steps)
    moreover have "take 1 (take (Suc i) (sub_steps s pw)) = [Esp_netif_init]"
      by (simp add: sub_steps_def)
    moreover have "set (take (Suc i) (sub_steps s pw)) \<subseteq> set (sub_steps s pw)"
      by (rule set_take_subset)
    ultimately show ?thesis by (intro exI [where x = "take (Suc i) (sub_steps s pw)"]) auto
  qed
qed

lemma app_main_nvs_cases:
  "app_main_nvs p t0 =
     (if p t0 Nvs_flash_init = ESP_ERR_NVS_NO_FREE_PAGES \<or> p t0 Nvs_flash_init = ESP_ERR_NVS_NEW_VERSION_FOUND
      then (if p (t0 @ [Nvs_flash_init]) Nvs_flash_erase \<noteq> ESP_OK
            then (None, t0 @ [Nvs_flash_init, Nvs_flash_erase, Abort])
            else (Some (p (t0 @ [Nvs_flash_init, Nvs_flash_erase]) Nvs_flash_init),
                  t0 @ [Nvs_flash_init, Nvs_flash_erase, Nvs_flash_init]))
      else (Some (p t0 Nvs_flash_init), t0 @ [Nvs_flash_init]))"
  by (simp add: app_main_nvs_def invoke_def ESP_ERROR_CHECK_halts_def)

lemma app_main_checked_cases:
  assumes "wifi_init_sta p s pw (t @ [init_log]) = (err, t2)"
  shows "app_main_checked p s pw ret t =
     (if ret \<noteq> ESP_OK then (Halted, t @ [Abort])
      else if err \<noteq> ESP_OK then (Halted, t2 @ [Abort])
      else if p (t2 @ [starting_log]) task_create \<noteq> pdPASS
      then (Returned, t2 @ [starting_log, task_create, failed_log])
      else (Returned, t2 @ [starting_log, task_create]))"
  using assms
  by (simp add: app_main_checked_def invoke_def ESP_ERROR_CHECK_halts_def)

lemma app_main_nvs_all_ok: "app_main_nvs all_ok t0 = (Some ESP_OK, t0 @ [Nvs_flash_init])"
  by (simp add: app_main_nvs_cases all_ok_def ESP_OK_def ESP_ERR_NVS_NO_FREE_PAGES_def
      ESP_ERR_NVS_NEW_VERSION_FOUND_def)

lemma wifi_init_sta_start_fails:
  "wifi_init_sta start_fails s pw t0 = (ESP_FAIL, t0 @ sub_steps s pw)"
  by (simp add: wifi_init_sta_def invoke_def start_fails_def all_ok_def sub_steps_def
      ESP_OK_def ESP_FAIL_def)

lemma wifi_init_sta_task_create_fails:
  "wifi_init_sta task_create_fails s pw t0 = (ESP_OK, t0 @ sub_steps s pw @ [finished_log s])"
  by (simp add: wifi_init_sta_def invoke_def task_create_fails_def all_ok_def sub_steps_def
      finished_log_def ESP_OK_def)

lemma app_main_checked_extends:
  "\<exists>ext. snd (app_main_checked p s pw ret t) = t @ ext \<and>
         set ext \<subseteq> set (sub_steps s pw) \<union>
           {finished_log s, init_log, starting_log, task_create, failed_log, Abort} \<and>
         (ret = ESP_OK \<longrightarrow> take 2 ext = [init_log, Esp_netif_init])"
proof -
  obtain err t2 where w: "wifi_init_sta p s pw (t @ [init_log]) = (err, t2)"
    by (cases "wifi_init_sta p s pw (t @ [init_log])")
  from wifi_init_sta_extends [of p s pw "t @ [init_log]"] w
  obtain ext where t2: "t2 = t @ [init_log] @ ext"
    and ext: "set ext \<subseteq> set (sub_steps s pw) \<union> {finished_log s}"
    and hd: "take 1 ext = [Esp_netif_init]"
    by auto
  from hd obtain ext' where ext': "ext = Esp_netif_init # ext'"
    by (cases ext) auto
  show ?thesis
    using ext
    by (auto simp: app_main_checked_cases [OF w] t2 ext')
qed

lemma no_nvs_in_checked:
  assumes "set ext \<subseteq> set (sub_steps s pw) \<union>
           {finished_log s, init_log, starting_log, task_create, failed_log, Abort}"
  shows "filter (\<lambda>c. c = Nvs_flash_init) ext = []" and "filter (\<lambda>c. c = Nvs_flash_erase) ext = []"
  using assms
  by (auto simp: filter_empty_conv sub_steps_def finished_log_def init_log_def starting_log_def
      task_create_def failed_log_def)

text \<open>
  C8. Let the storage block of \<open>app_main\<close> complete with success, and let the bring-up,
  entered right after the "Initializing Wi-Fi..." line, return status \<open>err\<close> with trace
  \<open>t2\<close>. If \<open>err\<close> is success, \<open>app_main\<close> returns, and its calls after the last call of
  the bring-up are the "Starting audio stream task..." line and then the creation of the
  streaming task (followed only by the error line when the creation fails): nothing is
  waited for in between, whatever the platform. If \<open>err\<close> is not success, the run halts
  with the platform's abort right after the bring-up, and \<open>app_main\<close> has made no
  task-creation call at all.
\<close>

theorem app_main_spawns_after_bring_up:
  assumes "app_main_nvs p t0 = (Some ESP_OK, t1)"
    and "wifi_init_sta p s pw (t1 @ [init_log]) = (err, t2)"
  shows "(err = ESP_OK \<longrightarrow>
            fst (app_main p s pw t0) = Returned \<and>
            snd (app_main p s pw t0) =
              t2 @ [starting_log, task_create] @
                (if p (t2 @ [starting_log]) task_create = pdPASS then [] else [failed_log])) \<and>
         (err \<noteq> ESP_OK \<longrightarrow>
            app_main p s pw t0 = (Halted, t2 @ [Abort]) \<and>
            (\<forall>f n st pr. XTaskCreate f n st pr \<notin> set (drop (length t0) (snd (app_main p s pw t0)))))"
proof -
  from wifi_init_sta_extends [of p s pw "t1 @ [init_log]"] assms(2)
  obtain ext where t2: "t2 = t1 @ [init_log] @ ext"
    and ext: "set ext \<subseteq> set (sub_steps s pw) \<union> {finished_log s}"
    by auto
  from assms(1) have t1: "t1 = t0 @ [Nvs_flash_init] \<or> t1 = t0 @ [Nvs_flash_init, Nvs_flash_erase, Nvs_flash_init]"
    by (auto simp: app_main_nvs_cases split: if_splits)
  have no_task: "XTaskCreate f n st pr \<notin> set ext" for f n st pr
    using ext by (auto simp: sub_steps_def finished_log_def)
  have main: "app_main p s pw t0 = app_main_checked p s pw ESP_OK t1"
    using assms(1) by (simp add: app_main_def)
  show ?thesis
    using t1 no_task
    by (auto simp: main app_main_checked_cases [OF assms(2)] t2 init_log_def)
qed


text \<open>
  The theorem on the platform where every call succeeds, and on one whose radio fails to
  start.
\<close>

theorem app_main_spawns_after_bring_up_witness:
  "app_main all_ok ''net'' ''secret'' [] =
     (Returned,
      [Nvs_flash_init, init_log] @ sub_steps ''net'' ''secret'' @
      [finished_log ''net'', starting_log, task_create]) \<and>
   app_main start_fails ''net'' ''secret'' [] =
     (Halted, [Nvs_flash_init, init_log] @ sub_steps ''net'' ''secret'' @ [Abort])"
proof -
  have n1: "app_main_nvs all_ok [] = (Some ESP_OK, [Nvs_flash_init])"
    using app_main_nvs_all_ok [of "[]"] by simp
  have w1: "wifi_init_sta all_ok ''net'' ''secret'' ([Nvs_flash_init] @ [init_log]) =
      (ESP_OK, [Nvs_flash_init, init_log] @ sub_steps ''net'' ''secret'' @ [finished_log ''net''])"
    by (simp add: wifi_init_sta_all_ok)
  have n2: "app_main_nvs start_fails [] = (Some ESP_OK, [Nvs_flash_init])"
    by (simp add: app_main_nvs_cases start_fails_def all_ok_def ESP_OK_def
        ESP_ERR_NVS_NO_FREE_PAGES_def ESP_ERR_NVS_NEW_VERSION_FOUND_def)
  have w2: "wifi_init_sta start_fails ''net'' ''secret'' ([Nvs_flash_init] @ [init_log]) =
      (ESP_FAIL, [Nvs_flash_init, init_log] @ sub_steps ''net'' ''secret'')"
    by (simp add: wifi_init_sta_start_fails)
  have f: "ESP_FAIL \<noteq> ESP_OK"
    by (simp add: ESP_FAIL_def ESP_OK_def)
  have a: "all_ok t task_create = pdPASS" for t
    by (simp add: all_ok_def task_create_def)
  from app_main_spawns_after_bring_up [OF n1 w1] app_main_spawns_after_bring_up [OF n2 w2] f a
  show ?thesis
    by (simp add: prod_eq_iff)
qed

text \<open>
  C9 (as amended). \<open>app_main\<close> first initialises the storage. On success it proceeds to
  the bring-up (the next calls are the "Initializing Wi-Fi..." line and the bring-up's
  first sub-step). On the no-free-pages or the new-version-found status it calls the
  erase; a non-success status of the erase halts the run with no second initialisation;
  after a successful erase the initialisation is called a second time, and its success
  proceeds to the bring-up while any other status of it halts the run. Any other status
  of the first initialisation halts the run at once. In every run the initialisation is
  called twice exactly when the first status was one of the two and the erase succeeded,
  and once otherwise; the erase is called once exactly when the first status was one of
  the two, and never otherwise.
\<close>

theorem app_main_storage:
  "(p t0 Nvs_flash_init = ESP_OK \<longrightarrow>
      take 3 (drop (length t0) (snd (app_main p s pw t0))) =
        [Nvs_flash_init, init_log, Esp_netif_init]) \<and>
   ((p t0 Nvs_flash_init = ESP_ERR_NVS_NO_FREE_PAGES \<or>
     p t0 Nvs_flash_init = ESP_ERR_NVS_NEW_VERSION_FOUND) \<and>
    p (t0 @ [Nvs_flash_init]) Nvs_flash_erase \<noteq> ESP_OK \<longrightarrow>
      app_main p s pw t0 = (Halted, t0 @ [Nvs_flash_init, Nvs_flash_erase, Abort])) \<and>
   ((p t0 Nvs_flash_init = ESP_ERR_NVS_NO_FREE_PAGES \<or>
     p t0 Nvs_flash_init = ESP_ERR_NVS_NEW_VERSION_FOUND) \<and>
    p (t0 @ [Nvs_flash_init]) Nvs_flash_erase = ESP_OK \<and>
    p (t0 @ [Nvs_flash_init, Nvs_flash_erase]) Nvs_flash_init = ESP_OK \<longrightarrow>
      take 5 (drop (length t0) (snd (app_main p s pw t0))) =
        [Nvs_flash_init, Nvs_flash_erase, Nvs_flash_init, init_log, Esp_netif_init]) \<and>
   ((p t0 Nvs_flash_init = ESP_ERR_NVS_NO_FREE_PAGES \<or>
     p t0 Nvs_flash_init = ESP_ERR_NVS_NEW_VERSION_FOUND) \<and>
    p (t0 @ [Nvs_flash_init]) Nvs_flash_erase = ESP_OK \<and>
    p (t0 @ [Nvs_flash_init, Nvs_flash_erase]) Nvs_flash_init \<noteq> ESP_OK \<longrightarrow>
      app_main p s pw t0 =
        (Halted, t0 @ [Nvs_flash_init, Nvs_flash_erase, Nvs_flash_init, Abort])) \<and>
   (p t0 Nvs_flash_init \<noteq> ESP_OK \<and>
    p t0 Nvs_flash_init \<noteq> ESP_ERR_NVS_NO_FREE_PAGES \<and>
    p t0 Nvs_flash_init \<noteq> ESP_ERR_NVS_NEW_VERSION_FOUND \<longrightarrow>
      app_main p s pw t0 = (Halted, t0 @ [Nvs_flash_init, Abort])) \<and>
   length (filter (\<lambda>c. c = Nvs_flash_init) (drop (length t0) (snd (app_main p s pw t0)))) =
     (if (p t0 Nvs_flash_init = ESP_ERR_NVS_NO_FREE_PAGES \<or>
          p t0 Nvs_flash_init = ESP_ERR_NVS_NEW_VERSION_FOUND) \<and>
         p (t0 @ [Nvs_flash_init]) Nvs_flash_erase = ESP_OK then 2 else 1) \<and>
   length (filter (\<lambda>c. c = Nvs_flash_erase) (drop (length t0) (snd (app_main p s pw t0)))) =
     (if p t0 Nvs_flash_init = ESP_ERR_NVS_NO_FREE_PAGES \<or>
         p t0 Nvs_flash_init = ESP_ERR_NVS_NEW_VERSION_FOUND then 1 else 0)"
proof -
  have distinct: "ESP_ERR_NVS_NO_FREE_PAGES \<noteq> ESP_OK" "ESP_ERR_NVS_NEW_VERSION_FOUND \<noteq> ESP_OK"
    by (simp_all add: ESP_ERR_NVS_NO_FREE_PAGES_def ESP_ERR_NVS_NEW_VERSION_FOUND_def ESP_OK_def)
  obtain r t1 where nvs: "app_main_nvs p t0 = (r, t1)"
    by (cases "app_main_nvs p t0")
  show ?thesis
  proof (cases r)
    case None
    with nvs have m: "app_main p s pw t0 = (Halted, t1)"
      by (simp add: app_main_def)
    from nvs None show ?thesis
      unfolding m by (auto simp: app_main_nvs_cases distinct distinct [symmetric] split: if_splits)
  next
    case (Some ret)
    with nvs have m: "app_main p s pw t0 = app_main_checked p s pw ret t1"
      by (simp add: app_main_def)
    from app_main_checked_extends [of p s pw ret t1]
    obtain ext where e1: "snd (app_main_checked p s pw ret t1) = t1 @ ext"
      and e2: "set ext \<subseteq> set (sub_steps s pw) \<union>
           {finished_log s, init_log, starting_log, task_create, failed_log, Abort}"
      and e3: "ret = ESP_OK \<longrightarrow> take 2 ext = [init_log, Esp_netif_init]"
      by blast
    have halt: "ret \<noteq> ESP_OK \<Longrightarrow> app_main_checked p s pw ret t1 = (Halted, t1 @ [Abort])"
      by (simp add: app_main_checked_def ESP_ERROR_CHECK_halts_def)
    note f = no_nvs_in_checked [OF e2]
    from nvs Some distinct e3 halt show ?thesis
      unfolding m
      by (auto simp: app_main_nvs_cases e1 f distinct [symmetric] split: if_splits)
  qed
qed


text \<open>
  One platform for each case: all calls succeed; no free pages at first; no free pages
  also after the erase; the erase fails; the partition is missing.
\<close>

theorem app_main_storage_witness:
  "take 3 (snd (app_main all_ok ''net'' ''secret'' [])) =
     [Nvs_flash_init, init_log, Esp_netif_init] \<and>
   take 5 (snd (app_main nvs_full ''net'' ''secret'' [])) =
     [Nvs_flash_init, Nvs_flash_erase, Nvs_flash_init, init_log, Esp_netif_init] \<and>
   app_main nvs_stays_full ''net'' ''secret'' [] =
     (Halted, [Nvs_flash_init, Nvs_flash_erase, Nvs_flash_init, Abort]) \<and>
   app_main erase_fails ''net'' ''secret'' [] =
     (Halted, [Nvs_flash_init, Nvs_flash_erase, Abort]) \<and>
   app_main nvs_missing ''net'' ''secret'' [] = (Halted, [Nvs_flash_init, Abort])"
proof -
  have "take 3 (snd (app_main all_ok ''net'' ''secret'' [])) =
     [Nvs_flash_init, init_log, Esp_netif_init]"
    using app_main_storage [of all_ok "[]" "''net''" "''secret''"]
    by (simp add: all_ok_def)
  moreover have "take 5 (snd (app_main nvs_full ''net'' ''secret'' [])) =
     [Nvs_flash_init, Nvs_flash_erase, Nvs_flash_init, init_log, Esp_netif_init]"
    using app_main_storage [of nvs_full "[]" "''net''" "''secret''"]
    by (simp add: nvs_full_def all_ok_def)
  moreover have "app_main nvs_stays_full ''net'' ''secret'' [] =
     (Halted, [Nvs_flash_init, Nvs_flash_erase, Nvs_flash_init, Abort])"
    using app_main_storage [of nvs_stays_full "[]" "''net''" "''secret''"]
    by (simp add: nvs_stays_full_def all_ok_def ESP_ERR_NVS_NO_FREE_PAGES_def ESP_OK_def)
  moreover have "app_main erase_fails ''net'' ''secret'' [] =
     (Halted, [Nvs_flash_init, Nvs_flash_erase, Abort])"
    using app_main_storage [of erase_fails "[]" "''net''" "''secret''"]
    by (simp add: erase_fails_def ESP_FAIL_def ESP_OK_def)
  moreover have "app_main nvs_missing ''net'' ''secret'' [] = (Halted, [Nvs_flash_init, Abort])"
    using app_main_storage [of nvs_missing "[]" "''net''" "''secret''"]
    by (simp add: nvs_missing_def ESP_ERR_NVS_NO_FREE_PAGES_def
        ESP_ERR_NVS_NEW_VERSION_FOUND_def ESP_OK_def)
  ultimately show ?thesis by blast
qed

text \<open>
  C9 as the specification states it fails on the code: when the first initialisation
  reports no free pages and the erase fails, the initialisation is not retried; the run
  halts with a single initialisation call.
\<close>

theorem app_main_storage_counterexample:
  "erase_fails [] Nvs_flash_init = ESP_ERR_NVS_NO_FREE_PAGES \<and>
   app_main erase_fails ''net'' ''secret'' [] =
     (Halted, [Nvs_flash_init, Nvs_flash_erase, Abort]) \<and>
   length (filter (\<lambda>c. c = Nvs_flash_init)
     (snd (app_main erase_fails ''net'' ''secret'' []))) = 1"
  by (simp add: app_main_def app_main_nvs_cases erase_fails_def ESP_FAIL_def ESP_OK_def)

text \<open>
  C10. Let the storage block and the bring-up succeed and let the platform refuse to
  create the streaming task. Then \<open>app_main\<close> returns (it does not halt), its last calls
  being the "Starting audio stream task..." line, the one creation attempt and the error
  line; among the calls it has made there is no abort, exactly one creation attempt, and
  none of the calls of the streaming task's body.
\<close>

theorem app_main_task_create_failure:
  assumes "app_main_nvs p t0 = (Some ESP_OK, t1)"
    and "wifi_init_sta p s pw (t1 @ [init_log]) = (ESP_OK, t2)"
    and "p (t2 @ [starting_log]) task_create \<noteq> pdPASS"
  shows "app_main p s pw t0 = (Returned, t2 @ [starting_log, task_create, failed_log]) \<and>
         Abort \<notin> set (drop (length t0) (snd (app_main p s pw t0))) \<and>
         length (filter (\<lambda>c. c = task_create) (drop (length t0) (snd (app_main p s pw t0)))) = 1 \<and>
         send_log \<notin> set (drop (length t0) (snd (app_main p s pw t0))) \<and>
         receive_log \<notin> set (drop (length t0) (snd (app_main p s pw t0))) \<and>
         (\<forall>ticks. VTaskDelay ticks \<notin> set (drop (length t0) (snd (app_main p s pw t0))))"
proof -
  from wifi_init_sta_extends [of p s pw "t1 @ [init_log]"] assms(2)
  obtain ext where t2: "t2 = t1 @ [init_log] @ ext"
    and ext: "set ext \<subseteq> set (sub_steps s pw) \<union> {finished_log s}"
    by auto
  from assms(1) have t1: "t1 = t0 @ [Nvs_flash_init] \<or> t1 = t0 @ [Nvs_flash_init, Nvs_flash_erase, Nvs_flash_init]"
    by (auto simp: app_main_nvs_cases split: if_splits)
  have main: "app_main p s pw t0 = (Returned, t2 @ [starting_log, task_create, failed_log])"
    using assms(1,3) by (simp add: app_main_def app_main_checked_cases [OF assms(2)])
  have not_in: "Abort \<notin> set ext" "send_log \<notin> set ext" "receive_log \<notin> set ext"
    "task_create \<notin> set ext" "VTaskDelay ticks \<notin> set ext" for ticks
    using ext
    by (auto simp: sub_steps_def finished_log_def send_log_def receive_log_def
        task_create_def WIFI_TAG_def AUDIO_TAG_def)
  have none: "filter (\<lambda>c. c = task_create) ext = []"
    using not_in(4) by (auto simp: filter_empty_conv)
  show ?thesis
    using t1 not_in none
    by (auto simp: main t2 init_log_def starting_log_def failed_log_def task_create_def
        send_log_def receive_log_def MAIN_TAG_def AUDIO_TAG_def)
qed

text \<open>The theorem on the platform whose task creation fails.\<close>

theorem app_main_task_create_failure_witness:
  "app_main task_create_fails ''net'' ''secret'' [] =
     (Returned,
      [Nvs_flash_init, init_log] @ sub_steps ''net'' ''secret'' @
      [finished_log ''net'', starting_log, task_create, failed_log])"
proof -
  have n: "app_main_nvs task_create_fails [] = (Some ESP_OK, [Nvs_flash_init])"
    by (simp add: app_main_nvs_cases task_create_fails_def all_ok_def ESP_OK_def
        ESP_ERR_NVS_NO_FREE_PAGES_def ESP_ERR_NVS_NEW_VERSION_FOUND_def)
  have w: "wifi_init_sta task_create_fails ''net'' ''secret'' ([Nvs_flash_init] @ [init_log]) =
      (ESP_OK, [Nvs_flash_init, init_log] @ sub_steps ''net'' ''secret'' @ [finished_log ''net''])"
    by (simp add: wifi_init_sta_task_create_fails)
  have c: "task_create_fails
      (([Nvs_flash_init, init_log] @ sub_steps ''net'' ''secret'' @ [finished_log ''net'']) @ [starting_log])
      task_create \<noteq> pdPASS"
    by (simp add: task_create_fails_def task_create_def pdPASS_def)
  from app_main_task_create_failure [OF n w c] show ?thesis
    by simp
qed

end
